theory Spec2Isabelle
  imports Main "HOL-Library.Word" "HOL-Library.Sublist" "HOL-Library.Multiset"
begin

section \<open>Go values\<close>

text \<open>
  A Go string is a byte sequence: \<^typ>\<open>string\<close> (a \<^typ>\<open>char list\<close>), whose length counts
  bytes as Go's \<^verbatim>\<open>len\<close> does. An \<^verbatim>\<open>int64\<close> is a 64-bit word read as a signed number.
  A \<^verbatim>\<open>time.Time\<close> is the instant it denotes, in nanoseconds since the Unix epoch:
  \<^verbatim>\<open>Equal\<close>, \<^verbatim>\<open>After\<close> and \<^verbatim>\<open>Before\<close> compare instants only.
\<close>

type_synonym int64 = "64 word"

abbreviation LF :: char where "LF \<equiv> CHR 0x0A"
abbreviation CR :: char where "CR \<equiv> CHR 0x0D"

definition Hour :: int where
  "Hour = 3600000000000"

text \<open>The zero \<^verbatim>\<open>time.Time\<close>, January 1 of year 1, 00:00 UTC.\<close>

definition zeroTime :: int where
  "zeroTime = - 62135596800 * 1000000000"

subsection \<open>types.go\<close>

record Event =
  ID :: int64
  Title :: string
  Start :: int
  End :: int
  Description :: string
  URL :: string
  Location :: string
  Organizer :: string
  SkillLevels :: "int option"
  Terrain :: "int option"

text \<open>The fields of \<^verbatim>\<open>StravaEvent\<close> that convertStravaEvent reads.\<close>

record StravaEvent =
  sID :: int64
  sTitle :: string
  sDescription :: string
  FirstName :: string
  LastName :: string
  UpcomingOccurrences :: "string list"
  Address :: string

datatype error =
    NoOccurrence int64
  | TimeParseError string
  | ClubIDNotSet
  | ReadFileFailed
  | UnmarshalFailed
  | ListFailed

subsection \<open>What the program takes from its environment and its libraries\<close>

text \<open>
  The environment variable, the \<^verbatim>\<open>time\<close> package (layouts, the zone database),
  \<^verbatim>\<open>encoding/json\<close> and the regular expressions of redactPhoneNumbers are parameters of
  the model: every theorem below holds for each value of them. STRAVA_CLUB_ID is what
  \<^verbatim>\<open>os.Getenv\<close> returns (empty when unset); time_Parse is \<^verbatim>\<open>time.Parse(layout, value)\<close>,
  None for an error; time_FormatLondon is \<^verbatim>\<open>t.In(london).Format(layout)\<close>; time_AddDays
  is \<^verbatim>\<open>t.AddDate(0, 0, days)\<close> for a \<^verbatim>\<open>time.Now()\<close> value t.
\<close>

record world =
  STRAVA_CLUB_ID :: string
  time_Parse :: "string \<Rightarrow> string \<Rightarrow> int option"
  time_FormatLondon :: "string \<Rightarrow> int \<Rightarrow> string"
  time_AddDays :: "int \<Rightarrow> int \<Rightarrow> int"
  redactPhoneNumbers :: "string \<Rightarrow> string"
  json_Unmarshal :: "string \<Rightarrow> Event list option"

datatype stat_result = StatOK | StatNotExist | StatError

record filesystem =
  os_Stat :: "string \<Rightarrow> stat_result"
  os_ReadFile :: "string \<Rightarrow> string option"

definition RFC3339 :: string where
  "RFC3339 = ''2006-01-02T15:04:05Z07:00''"

definition eventsFile :: string where
  "eventsFile = ''output/events/events.json''"

section \<open>Library functions on strings\<close>

text \<open>
  \<^verbatim>\<open>strings.ReplaceAll(s, old, new)\<close>: the non-overlapping occurrences of old, from the
  left. Every call of the program passes a non-empty literal for old; for an empty old
  Go inserts new at each rune boundary, which the first branch does byte by byte.
\<close>

fun ReplaceAll :: "string \<Rightarrow> string \<Rightarrow> string \<Rightarrow> string" where
  "ReplaceAll [] old new = (if old = [] then new else [])"
| "ReplaceAll (c # cs) old new =
     (if old = [] then new @ c # ReplaceAll cs old new
      else if prefix old (c # cs) then new @ ReplaceAll (drop (length old - 1) cs) old new
      else c # ReplaceAll cs old new)"

text \<open>
  The UTF-8 encodings of the runes that \<^verbatim>\<open>unicode.IsSpace\<close> and the table of
  \<^verbatim>\<open>fmt\<close>'s scanner accept: U+0009 to U+000D, U+0020, U+0085, U+00A0, U+1680,
  U+2000 to U+200A, U+2028, U+2029, U+202F, U+205F, U+3000.
\<close>

definition spaceEncodings :: "string list" where
  "spaceEncodings =
     [[CHR 0x09], [CHR 0x0A], [CHR 0x0B], [CHR 0x0C], [CHR 0x0D], [CHR 0x20],
      [CHR 0xC2, CHR 0x85], [CHR 0xC2, CHR 0xA0],
      [CHR 0xE1, CHR 0x9A, CHR 0x80],
      [CHR 0xE2, CHR 0x80, CHR 0x80], [CHR 0xE2, CHR 0x80, CHR 0x81],
      [CHR 0xE2, CHR 0x80, CHR 0x82], [CHR 0xE2, CHR 0x80, CHR 0x83],
      [CHR 0xE2, CHR 0x80, CHR 0x84], [CHR 0xE2, CHR 0x80, CHR 0x85],
      [CHR 0xE2, CHR 0x80, CHR 0x86], [CHR 0xE2, CHR 0x80, CHR 0x87],
      [CHR 0xE2, CHR 0x80, CHR 0x88], [CHR 0xE2, CHR 0x80, CHR 0x89],
      [CHR 0xE2, CHR 0x80, CHR 0x8A],
      [CHR 0xE2, CHR 0x80, CHR 0xA8], [CHR 0xE2, CHR 0x80, CHR 0xA9],
      [CHR 0xE2, CHR 0x80, CHR 0xAF],
      [CHR 0xE2, CHR 0x81, CHR 0x9F],
      [CHR 0xE3, CHR 0x80, CHR 0x80]]"

text \<open>The number of bytes of a space rune at the start (at the end) of s; 0 when there is none.\<close>

definition leadingSpace :: "string \<Rightarrow> nat" where
  "leadingSpace s = (case List.find (\<lambda>p. prefix p s) spaceEncodings of None \<Rightarrow> 0 | Some p \<Rightarrow> length p)"

definition trailingSpace :: "string \<Rightarrow> nat" where
  "trailingSpace s = (case List.find (\<lambda>p. suffix p s) spaceEncodings of None \<Rightarrow> 0 | Some p \<Rightarrow> length p)"

function TrimLeft :: "string \<Rightarrow> string" where
  "TrimLeft s = (if leadingSpace s = 0 \<or> s = [] then s else TrimLeft (drop (leadingSpace s) s))"
  by pat_completeness auto
termination
  by (relation "measure length") auto

declare TrimLeft.simps [simp del]

function TrimRight :: "string \<Rightarrow> string" where
  "TrimRight s = (if trailingSpace s = 0 \<or> s = [] then s else TrimRight (take (length s - trailingSpace s) s))"
  by pat_completeness auto
termination
  by (relation "measure length") auto

declare TrimRight.simps [simp del]

text \<open>\<^verbatim>\<open>strings.TrimSpace\<close>.\<close>

definition TrimSpace :: "string \<Rightarrow> string" where
  "TrimSpace s = TrimRight (TrimLeft s)"


subsection \<open>Decimal integers: the verb \<^verbatim>\<open>%d\<close> of fmt\<close>

definition digitChar :: "nat \<Rightarrow> char" where
  "digitChar d = ''0123456789'' ! d"

fun natToDec :: "nat \<Rightarrow> string" where
  "natToDec n = (if n < 10 then [digitChar n] else natToDec (n div 10) @ [digitChar (n mod 10)])"

declare natToDec.simps [simp del]

text \<open>\<^verbatim>\<open>fmt.Sprintf("%d", v)\<close> for an int64.\<close>

definition Sprintf_d :: "int64 \<Rightarrow> string" where
  "Sprintf_d v =
     (if sint v < 0 then CHR ''-'' # natToDec (nat (- sint v)) else natToDec (nat (sint v)))"

definition isDigit :: "char \<Rightarrow> bool" where
  "isDigit c = (c \<in> set ''0123456789'')"

definition digitVal :: "char \<Rightarrow> nat" where
  "digitVal c = length (takeWhile (\<lambda>d. d \<noteq> c) ''0123456789'')"

definition decVal :: "string \<Rightarrow> nat" where
  "decVal ds = foldl (\<lambda>a c. 10 * a + digitVal c) 0 ds"

datatype scan_error =
    UnexpectedNewline
  | EOF
  | UnexpectedEOF
  | ExpectedInteger
  | ValueOutOfRange
  | InputDoesNotMatchFormat

text \<open>
  \<^verbatim>\<open>ss.SkipSpace\<close> of fmt's scanner under Sscanf: spaces are skipped, a newline is an
  error.
\<close>

function SkipSpace :: "string \<Rightarrow> scan_error + string" where
  "SkipSpace s =
     (if s = [] then Inr s
      else if hd s = LF then Inl UnexpectedNewline
      else if leadingSpace s = 0 then Inr s
      else SkipSpace (drop (leadingSpace s) s))"
  by pat_completeness auto
termination
  by (relation "measure length") auto

declare SkipSpace.simps [simp del]

text \<open>
  \<^verbatim>\<open>strconv.ParseInt(tok, 10, 64)\<close> on the token the scanner hands it: an optional sign
  and at least one decimal digit. The magnitude must stay below \<open>2^63\<close>, or reach it
  under a minus sign.
\<close>

definition ParseInt :: "string \<Rightarrow> scan_error + int64" where
  "ParseInt tok =
     (let neg = (tok \<noteq> [] \<and> hd tok = CHR ''-'');
          ds = (if tok \<noteq> [] \<and> (hd tok = CHR ''+'' \<or> hd tok = CHR ''-'') then tl tok else tok);
          un = decVal ds
      in if \<not> neg \<and> un \<ge> 2 ^ 63 then Inl ValueOutOfRange
         else if neg \<and> un > 2 ^ 63 then Inl ValueOutOfRange
         else Inr (if neg then - (word_of_nat un) else word_of_nat un))"

text \<open>The literal text of a format after its verb, matched rune by rune (\<^verbatim>\<open>ss.advance\<close>).\<close>

fun matchLiteral :: "string \<Rightarrow> string \<Rightarrow> scan_error option" where
  "matchLiteral [] s = None"
| "matchLiteral (f # fs) [] = Some UnexpectedEOF"
| "matchLiteral (f # fs) (c # cs) = (if c = f then matchLiteral fs cs else Some InputDoesNotMatchFormat)"

text \<open>
  \<^verbatim>\<open>n, err := fmt.Sscanf(str, "%d" + lit, &v)\<close> for an int64 variable holding v0 and a
  literal lit without spaces or verbs: the count of values stored, the error, and the
  variable afterwards. Input left over after the format is not an error. (The scanner
  reads at most \<open>2^30\<close> runes; longer inputs are outside this model.)
\<close>

definition Sscanf_d :: "string \<Rightarrow> string \<Rightarrow> int64 \<Rightarrow> nat \<times> scan_error option \<times> int64" where
  "Sscanf_d str lit v0 =
     (case SkipSpace str of
        Inl e \<Rightarrow> (0, Some e, v0)
      | Inr s1 \<Rightarrow>
          if s1 = [] then (0, Some EOF, v0)
          else
            let sgn = (if hd s1 = CHR ''+'' \<or> hd s1 = CHR ''-'' then [hd s1] else []);
                s2 = drop (length sgn) s1
            in if s2 = [] then (0, Some EOF, v0)
               else if \<not> isDigit (hd s2) then (0, Some ExpectedInteger, v0)
               else
                 (case ParseInt (sgn @ takeWhile isDigit s2) of
                    Inl e \<Rightarrow> (0, Some e, v0)
                  | Inr i \<Rightarrow> (1, matchLiteral lit (dropWhile isDigit s2), i)))"

section \<open>strava.go\<close>

definition getClubID :: "world \<Rightarrow> error + string" where
  "getClubID w = (if STRAVA_CLUB_ID w = [] then Inl ClubIDNotSet else Inr (STRAVA_CLUB_ID w))"

definition convertStravaEvent :: "world \<Rightarrow> StravaEvent \<Rightarrow> error + Event" where
  "convertStravaEvent w se =
     (case UpcomingOccurrences se of
        [] \<Rightarrow> Inl (NoOccurrence (sID se))
      | occ # _ \<Rightarrow>
          (case time_Parse w ''2006-01-02T15:04:05Z'' occ of
             None \<Rightarrow> Inl (TimeParseError occ)
           | Some startTime \<Rightarrow>
               let endTime = startTime + 1 * Hour;
                   organizer = TrimSpace (FirstName se @ '' '' @ LastName se)
               in (case getClubID w of
                     Inl err \<Rightarrow> Inl err
                   | Inr clubID \<Rightarrow>
                       Inr \<lparr> ID = sID se,
                             Title = sTitle se,
                             Start = startTime,
                             End = endTime,
                             Description = redactPhoneNumbers w (sDescription se),
                             URL = ''https://www.strava.com/clubs/'' @ clubID @ ''/group_events/''
                                     @ Sprintf_d (sID se),
                             Location = Address se,
                             Organizer = organizer,
                             SkillLevels = None,
                             Terrain = None \<rparr>)))"

section \<open>main.go\<close>


text \<open>
  The loop that main, generateICSFromCache, generateICSOnly and syncGoogleCalendarOnly
  each run over the events: the next 60 days.
\<close>

fun next60Loop :: "int \<Rightarrow> int \<Rightarrow> Event list \<Rightarrow> Event list \<Rightarrow> Event list" where
  "next60Loop now sixtyDaysFromNow [] filteredEvents = filteredEvents"
| "next60Loop now sixtyDaysFromNow (event # events) filteredEvents =
     (if Start event > now \<and> Start event < sixtyDaysFromNow
      then next60Loop now sixtyDaysFromNow events (filteredEvents @ [event])
      else next60Loop now sixtyDaysFromNow events filteredEvents)"

definition eventsNext60Days :: "world \<Rightarrow> int \<Rightarrow> Event list \<Rightarrow> Event list" where
  "eventsNext60Days w now events =
     (let sixtyDaysFromNow = time_AddDays w now 60
      in next60Loop now sixtyDaysFromNow events [])"

fun filterLoop :: "int \<Rightarrow> Event list \<Rightarrow> Event list \<Rightarrow> Event list" where
  "filterLoop sevenDaysAgo [] filtered = filtered"
| "filterLoop sevenDaysAgo (event # events) filtered =
     (if Start event > sevenDaysAgo
      then filterLoop sevenDaysAgo events (filtered @ [event])
      else filterLoop sevenDaysAgo events filtered)"

definition filterEvents :: "world \<Rightarrow> int \<Rightarrow> Event list \<Rightarrow> Event list" where
  "filterEvents w now events =
     (let sevenDaysAgo = time_AddDays w now (- 7)
      in filterLoop sevenDaysAgo events [])"

definition loadExistingEvents :: "world \<Rightarrow> filesystem \<Rightarrow> error + Event list" where
  "loadExistingEvents w fs =
     (if os_Stat fs eventsFile = StatNotExist then Inr []
      else
        (case os_ReadFile fs eventsFile of
           None \<Rightarrow> Inl ReadFileFailed
         | Some data \<Rightarrow>
             (case json_Unmarshal w data of
                None \<Rightarrow> Inl UnmarshalFailed
              | Some events \<Rightarrow>
                  Inr (map (\<lambda>e. e\<lparr>Description := redactPhoneNumbers w (Description e)\<rparr>) events))))"

text \<open>
  What generateICSOnly (before it sorts) and syncGoogleCalendarOnly (before it calls
  syncStravaEvents) hold after loading and filtering the cache; a load error ends the
  program (\<^verbatim>\<open>log.Fatalf\<close>). Between the two steps syncGoogleCalendarOnly also stops
  when GOOGLE_CALENDAR_ID is unset or the calendar service cannot be created.
\<close>

definition cachedEventsNext60Days :: "world \<Rightarrow> filesystem \<Rightarrow> int \<Rightarrow> error + Event list" where
  "cachedEventsNext60Days w fs now =
     (case loadExistingEvents w fs of
        Inl err \<Rightarrow> Inl err
      | Inr events \<Rightarrow> Inr (eventsNext60Days w now events))"


section \<open>ics.go\<close>

abbreviation BSL :: char where "BSL \<equiv> CHR 0x5C"

text \<open>
  \<^verbatim>\<open>regexp.MustCompile(`<[^>]*>`).ReplaceAllString(input, "")\<close>: a tag runs from a
  \<^verbatim>\<open><\<close> to the first \<^verbatim>\<open>>\<close> after it; a \<^verbatim>\<open><\<close> with no \<^verbatim>\<open>>\<close> after it stays.
\<close>

function stripTags :: "string \<Rightarrow> string" where
  "stripTags [] = []"
| "stripTags (c # cs) =
     (if c = CHR ''<'' \<and> CHR ''>'' \<in> set cs
      then stripTags (tl (dropWhile (\<lambda>d. d \<noteq> CHR ''>'') cs))
      else c # stripTags cs)"
  by pat_completeness auto
termination
  by (relation "measure length") (auto simp: less_Suc_eq_le intro: le_trans[OF diff_le_self length_dropWhile_le])

definition stripHTML :: "string \<Rightarrow> string" where
  "stripHTML input =
     (let text = stripTags input;
          text = ReplaceAll text ''&nbsp;'' '' '';
          text = ReplaceAll text ''&amp;'' ''&'';
          text = ReplaceAll text ''&lt;'' ''<'';
          text = ReplaceAll text ''&gt;'' ''>'';
          text = ReplaceAll text ''&quot;'' [CHR 0x22];
          text = ReplaceAll text ''&#39;'' [CHR 0x27];
          text = ReplaceAll text ''&apos;'' [CHR 0x27]
      in text)"

definition escapeICSText :: "string \<Rightarrow> string" where
  "escapeICSText s0 =
     (let s = ReplaceAll s0 [BSL] [BSL, BSL];
          s = ReplaceAll s '';'' [BSL, CHR '';''];
          s = ReplaceAll s '','' [BSL, CHR '',''];
          s = ReplaceAll s [CR, LF] [BSL, CHR ''n''];
          s = ReplaceAll s [LF] [BSL, CHR ''n''];
          s = ReplaceAll s [CR] [BSL, CHR ''n'']
      in s)"

function foldLoop :: "string \<Rightarrow> string \<Rightarrow> string" where
  "foldLoop text result =
     (if length text > 75
      then foldLoop (drop 75 text) (result @ take 75 text @ [CR, LF, CHR '' ''])
      else result @ text)"
  by pat_completeness auto
termination
  by (relation "measure (\<lambda>(text, result). length text)") auto

declare foldLoop.simps [simp del]

definition foldLine :: "string \<Rightarrow> string" where
  "foldLine text = (if length text \<le> 75 then text else foldLoop text [])"

definition formatICSProperty :: "string \<Rightarrow> string \<Rightarrow> string" where
  "formatICSProperty property v =
     (let cleaned = stripHTML v;
          escaped = escapeICSText cleaned;
          line = property @ '':'' @ escaped;
          folded = foldLine line
      in folded @ [CR, LF])"

subsection \<open>The earlier revision of ics.go\<close>

text \<open>
  The other revision of the file keeps real newlines in the value, folds each line
  between them on its own and does not strip markup. Its functions carry the suffix 0.
\<close>

definition escapeICSText0 :: "string \<Rightarrow> string" where
  "escapeICSText0 s0 =
     (let s = ReplaceAll s0 [BSL] [BSL, BSL];
          s = ReplaceAll s '';'' [BSL, CHR '';''];
          s = ReplaceAll s '','' [BSL, CHR '','']
      in s)"

text \<open>\<^verbatim>\<open>strings.Split(text, "\n")\<close>.\<close>

fun SplitLF :: "string \<Rightarrow> string list" where
  "SplitLF [] = [[]]"
| "SplitLF (c # cs) =
     (if c = LF then [] # SplitLF cs
      else (case SplitLF cs of l # ls \<Rightarrow> (c # l) # ls | [] \<Rightarrow> [[c]]))"

fun foldLines0 :: "string list \<Rightarrow> nat \<Rightarrow> string \<Rightarrow> string" where
  "foldLines0 [] i result = result"
| "foldLines0 (line # lines) i result =
     foldLines0 lines (i + 1) (foldLoop line (if i > 0 then result @ [CR, LF] else result))"

definition foldLine0 :: "string \<Rightarrow> string" where
  "foldLine0 text = foldLines0 (SplitLF text) 0 []"

definition formatICSProperty0 :: "string \<Rightarrow> string \<Rightarrow> string" where
  "formatICSProperty0 property v =
     (let escaped = escapeICSText0 v;
          line = property @ '':'' @ escaped
      in foldLine0 line @ [CR, LF])"

subsection \<open>The reader's side\<close>

text \<open>
  Modelled from the spec: the inverse operations of a conforming reader, which the
  program does not implement. The physical lines of a document are its pieces between
  line breaks (CR LF); unfolding removes each line break that is followed by a space,
  together with that space; unescaping turns each backslash pair back into the character
  it stands for.
\<close>

fun physicalLines :: "string \<Rightarrow> string list" where
  "physicalLines [] = [[]]"
| "physicalLines [c] = [[c]]"
| "physicalLines (c # d # cs) =
     (if c = CR \<and> d = LF then [] # physicalLines cs
      else (case physicalLines (d # cs) of l # ls \<Rightarrow> (c # l) # ls | [] \<Rightarrow> [[c]]))"

definition unfoldLines :: "string \<Rightarrow> string" where
  "unfoldLines s = ReplaceAll s [CR, LF, CHR '' ''] []"

fun unescapeText :: "string \<Rightarrow> string" where
  "unescapeText [] = []"
| "unescapeText [c] = [c]"
| "unescapeText (c # d # cs) =
     (if c = BSL \<and> (d = BSL \<or> d = CHR '';'' \<or> d = CHR '','') then d # unescapeText cs
      else if c = BSL \<and> (d = CHR ''n'' \<or> d = CHR ''N'') then LF # unescapeText cs
      else c # unescapeText (d # cs))"


section \<open>gcal.go\<close>

text \<open>
  The fields of \<^verbatim>\<open>calendar.Event\<close> that the program reads or writes. Start and End, which
  the API always fills, are folded into the event (DateTime and TimeZone of each).
\<close>

record GCalEvent =
  gId :: string
  ICalUID :: string
  Summary :: string
  gLocation :: string
  gDescription :: string
  StartDateTime :: string
  StartTimeZone :: string
  EndDateTime :: string
  EndTimeZone :: string
  SourceTitle :: string
  SourceUrl :: string

text \<open>The calls on the calendar service that change the calendar, in the order issued.\<close>

datatype gcal_call =
    EventsDelete string
  | EventsUpdate string GCalEvent
  | EventsInsert GCalEvent

text \<open>
  The description both syncStravaEvents and createGoogleCalendarEvent compose, with the
  same format string.
\<close>

definition composeDescription :: "Event \<Rightarrow> string \<Rightarrow> string \<Rightarrow> string" where
  "composeDescription event clubID syncTime =
     ''Leader: '' @ Organizer event @ [LF, LF] @
     ''Location: '' @ Location event @ [LF, LF] @
     Description event @ [LF, LF] @
     ''View on Strava: '' @ URL event @ [LF, LF] @
     ''Synced from Strava Club '' @ clubID @ '' on '' @ syncTime"

definition createGoogleCalendarEvent :: "world \<Rightarrow> Event \<Rightarrow> string \<Rightarrow> GCalEvent" where
  "createGoogleCalendarEvent w event syncTime =
     (let clubID = (case getClubID w of Inl err \<Rightarrow> ''unknown'' | Inr c \<Rightarrow> c);
          description = composeDescription event clubID syncTime
      in \<lparr> gId = [],
           ICalUID = Sprintf_d (ID event) @ ''@strava.com'',
           Summary = Title event,
           gLocation = Location event,
           gDescription = description,
           StartDateTime = time_FormatLondon w RFC3339 (Start event),
           StartTimeZone = ''Europe/London'',
           EndDateTime = time_FormatLondon w RFC3339 (End event),
           EndTimeZone = ''Europe/London'',
           SourceTitle = ''Strava'',
           SourceUrl = URL event \<rparr>)"

text \<open>
  Lines 95 to 105: the Strava id of a calendar event, or None where the loop skips the
  event.
\<close>

definition extractStravaID :: "string \<Rightarrow> int64 option" where
  "extractStravaID uid =
     (if uid \<noteq> [] then
        (case Sscanf_d uid ''@strava.com'' 0 of
           (n, err, stravaID) \<Rightarrow>
             if err \<noteq> None \<or> n \<noteq> 1 \<or> stravaID = 0 then None else Some stravaID)
      else None)"

text \<open>\<^verbatim>\<open>t, _ := time.Parse(time.RFC3339, s)\<close>: the zero time when s does not parse.\<close>

definition parseRFC3339 :: "world \<Rightarrow> string \<Rightarrow> int" where
  "parseRFC3339 w s = (case time_Parse w RFC3339 s of None \<Rightarrow> zeroTime | Some t \<Rightarrow> t)"

definition needsUpdate :: "world \<Rightarrow> string \<Rightarrow> string \<Rightarrow> GCalEvent \<Rightarrow> Event \<Rightarrow> bool" where
  "needsUpdate w syncTime clubID gcalEvent stravaEvent =
     (let needsUpdate = False;
          needsUpdate = (if Summary gcalEvent \<noteq> Title stravaEvent then True else needsUpdate);
          gcalStartTime = parseRFC3339 w (StartDateTime gcalEvent);
          gcalEndTime = parseRFC3339 w (EndDateTime gcalEvent);
          needsUpdate = (if gcalStartTime \<noteq> Start stravaEvent \<or> gcalEndTime \<noteq> End stravaEvent
                         then True else needsUpdate);
          newDesc = composeDescription stravaEvent clubID syncTime;
          needsUpdate = (if TrimSpace (gDescription gcalEvent) \<noteq> TrimSpace newDesc
                         then True else needsUpdate)
      in needsUpdate)"

text \<open>The map from Strava ids to events: a later event replaces an earlier one of the same id.\<close>

definition stravaEventMapOf :: "Event list \<Rightarrow> (int64 \<rightharpoonup> Event)" where
  "stravaEventMapOf events = foldl (\<lambda>m event. m(ID event \<mapsto> event)) Map.empty events"

text \<open>
  The loop over the existing calendar events, with the set of processed ids and the
  calls issued so far; it returns both, and the error if it returned early.
\<close>

fun existingLoop ::
  "world \<Rightarrow> string \<Rightarrow> (int64 \<rightharpoonup> Event) \<Rightarrow> GCalEvent list \<Rightarrow> int64 set \<Rightarrow> gcal_call list
     \<Rightarrow> int64 set \<times> gcal_call list \<times> error option" where
  "existingLoop w syncTime stravaEventMap [] processedStravaIDs calls =
     (processedStravaIDs, calls, None)"
| "existingLoop w syncTime stravaEventMap (gcalEvent # items) processedStravaIDs calls =
     (case extractStravaID (ICalUID gcalEvent) of
        None \<Rightarrow> existingLoop w syncTime stravaEventMap items processedStravaIDs calls
      | Some stravaID \<Rightarrow>
          (case stravaEventMap stravaID of
             None \<Rightarrow>
               existingLoop w syncTime stravaEventMap items processedStravaIDs
                 (calls @ [EventsDelete (gId gcalEvent)])
           | Some stravaEvent \<Rightarrow>
               (case getClubID w of
                  Inl err \<Rightarrow> (insert stravaID processedStravaIDs, calls, Some err)
                | Inr clubID \<Rightarrow>
                    if needsUpdate w syncTime clubID gcalEvent stravaEvent
                    then existingLoop w syncTime stravaEventMap items (insert stravaID processedStravaIDs)
                           (calls @ [EventsUpdate (gId gcalEvent)
                                       (createGoogleCalendarEvent w stravaEvent syncTime)])
                    else existingLoop w syncTime stravaEventMap items (insert stravaID processedStravaIDs)
                           calls)))"

fun createLoop :: "world \<Rightarrow> string \<Rightarrow> int64 set \<Rightarrow> Event list \<Rightarrow> gcal_call list \<Rightarrow> gcal_call list" where
  "createLoop w syncTime processedStravaIDs [] calls = calls"
| "createLoop w syncTime processedStravaIDs (stravaEvent # events) calls =
     (if ID stravaEvent \<notin> processedStravaIDs
      then createLoop w syncTime processedStravaIDs events
             (calls @ [EventsInsert (createGoogleCalendarEvent w stravaEvent syncTime)])
      else createLoop w syncTime processedStravaIDs events calls)"

text \<open>
  syncStravaEvents at the instant now, given what \<^verbatim>\<open>Events.List\<close> returned: the calls it
  issues on the calendar and the error it returns. A call that fails is logged and the
  loop goes on, so the calls issued do not depend on their outcomes.
\<close>

definition syncStravaEvents ::
  "world \<Rightarrow> int \<Rightarrow> Event list \<Rightarrow> error + GCalEvent list \<Rightarrow> gcal_call list \<times> error option" where
  "syncStravaEvents w now events listed =
     (let syncTime = time_FormatLondon w ''Mon, 2 Jan @ 3:04 PM'' now;
          stravaEventMap = stravaEventMapOf events
      in case listed of
           Inl err \<Rightarrow> ([], Some err)
         | Inr existingEvents \<Rightarrow>
             (case existingLoop w syncTime stravaEventMap existingEvents {} [] of
                (processedStravaIDs, calls, Some err) \<Rightarrow> (calls, Some err)
              | (processedStravaIDs, calls, None) \<Rightarrow>
                  (createLoop w syncTime processedStravaIDs events calls, None)))"

subsection \<open>The calendar service\<close>

text \<open>
  Modelled from the spec: the calendar-mutation interface of the external calendar
  (delete by opaque id, update as a whole-record replace under the same id, insert under
  an id the service chooses), with every call succeeding.
\<close>

definition freshId :: "GCalEvent list \<Rightarrow> string" where
  "freshId cal = replicate (Suc (foldr (\<lambda>g n. max (length (gId g)) n) cal 0)) (CHR ''x'')"

fun applyCall :: "GCalEvent list \<Rightarrow> gcal_call \<Rightarrow> GCalEvent list" where
  "applyCall cal (EventsDelete i) = filter (\<lambda>g. gId g \<noteq> i) cal"
| "applyCall cal (EventsUpdate i r) = map (\<lambda>g. if gId g = i then r\<lparr>gId := i\<rparr> else g) cal"
| "applyCall cal (EventsInsert r) = cal @ [r\<lparr>gId := freshId cal\<rparr>]"

definition reconcile_apply :: "GCalEvent list \<Rightarrow> gcal_call list \<Rightarrow> GCalEvent list" where
  "reconcile_apply cal calls = foldl applyCall cal calls"

subsection \<open>The reference definition of the operation set\<close>

text \<open>
  The operations the specification asks for, in its words: a delete for each managed
  item whose id is absent from desired, an update with the full fresh record for each
  managed item whose id is in desired and whose summary, start, end or trimmed
  description differs, a create for each desired event whose id no managed item carries.
\<close>

definition desiredEvent :: "Event list \<Rightarrow> int64 \<Rightarrow> Event option" where
  "desiredEvent desired i = List.find (\<lambda>e. ID e = i) desired"

definition differs :: "world \<Rightarrow> string \<Rightarrow> GCalEvent \<Rightarrow> Event \<Rightarrow> bool" where
  "differs w syncTime item e =
     (Summary item \<noteq> Title e
      \<or> parseRFC3339 w (StartDateTime item) \<noteq> Start e
      \<or> parseRFC3339 w (EndDateTime item) \<noteq> End e
      \<or> TrimSpace (gDescription item) \<noteq> TrimSpace (composeDescription e (STRAVA_CLUB_ID w) syncTime))"



definition refProcessed :: "Event list \<Rightarrow> GCalEvent list \<Rightarrow> int64 list" where
  "refProcessed desired existing =
     concat (map (\<lambda>item. case extractStravaID (ICalUID item) of
                            None \<Rightarrow> []
                          | Some i \<Rightarrow> (case desiredEvent desired i of None \<Rightarrow> [] | Some e \<Rightarrow> [i])) existing)"

definition refCreates :: "world \<Rightarrow> string \<Rightarrow> Event list \<Rightarrow> GCalEvent list \<Rightarrow> gcal_call list" where
  "refCreates w syncTime desired existing =
     map (\<lambda>e. EventsInsert (createGoogleCalendarEvent w e syncTime))
       (filter (\<lambda>e. ID e \<notin> set (refProcessed desired existing)) desired)"


section \<open>Sample data\<close>

text \<open>
  A world for the examples: club 12345, a machine on UTC, and the \<^verbatim>\<open>time\<close> package
  tabulated at the instants the examples use (Monday 2 November 2026, 19:00 and 19:15,
  and Sunday 8 November 2026, 09:00 and 10:00, all in London's winter time).
\<close>

definition sampleNow :: int where
  "sampleNow = 1793646000000000000"

definition sampleLater :: int where
  "sampleLater = 1793646900000000000"

definition sampleStart :: int where
  "sampleStart = 1794128400000000000"

definition sampleParse :: "string \<Rightarrow> string \<Rightarrow> int option" where
  "sampleParse layout s =
     (if layout = ''2006-01-02T15:04:05Z'' \<or> layout = RFC3339 then
        (if s = ''2026-11-08T09:00:00Z'' then Some sampleStart
         else if s = ''2026-11-08T10:00:00Z'' then Some (sampleStart + Hour)
         else None)
      else None)"

definition sampleFormat :: "string \<Rightarrow> int \<Rightarrow> string" where
  "sampleFormat layout t =
     (if layout = RFC3339 then
        (if t = sampleStart then ''2026-11-08T09:00:00Z''
         else if t = sampleStart + Hour then ''2026-11-08T10:00:00Z''
         else [])
      else if layout = ''Mon, 2 Jan @ 3:04 PM'' then
        (if t = sampleNow then ''Mon, 2 Nov @ 7:00 PM''
         else if t = sampleLater then ''Mon, 2 Nov @ 7:15 PM''
         else [])
      else [])"

definition sampleWorld :: world where
  "sampleWorld =
     \<lparr> STRAVA_CLUB_ID = ''12345'',
       time_Parse = sampleParse,
       time_FormatLondon = sampleFormat,
       time_AddDays = (\<lambda>t days. t + days * 24 * Hour),
       redactPhoneNumbers = (\<lambda>text. text),
       json_Unmarshal = (\<lambda>data. None) \<rparr>"

definition sampleStravaEvent :: StravaEvent where
  "sampleStravaEvent =
     \<lparr> sID = 7,
       sTitle = ''Tempo Run'',
       sDescription = ''Meet at the clock tower'',
       FirstName = ''Ada'',
       LastName = ''Lovelace'',
       UpcomingOccurrences = [''2026-11-08T09:00:00Z''],
       Address = ''Priory Park'' \<rparr>"

definition sampleEvent :: Event where
  "sampleEvent =
     \<lparr> ID = 7,
       Title = ''Tempo Run'',
       Start = sampleStart,
       End = sampleStart + Hour,
       Description = ''Meet at the clock tower'',
       URL = ''https://www.strava.com/clubs/12345/group_events/7'',
       Location = ''Priory Park'',
       Organizer = ''Ada Lovelace'',
       SkillLevels = None,
       Terrain = None \<rparr>"

definition emptyDisk :: filesystem where
  "emptyDisk = \<lparr> os_Stat = (\<lambda>path. StatNotExist), os_ReadFile = (\<lambda>path. None) \<rparr>"





definition lookalikeItem :: GCalEvent where
  "lookalikeItem =
     \<lparr> gId = ''g4'', ICalUID = ''2024@strava.community'', Summary = ''Knitting circle'',
       gLocation = [], gDescription = [],
       StartDateTime = ''2026-11-08T09:00:00Z'', StartTimeZone = ''Europe/London'',
       EndDateTime = ''2026-11-08T10:00:00Z'', EndTimeZone = ''Europe/London'',
       SourceTitle = [], SourceUrl = [] \<rparr>"

section \<open>Auxiliary definitions for the statements\<close>

text \<open>The first bytes of the encodings of the space runes.\<close>

definition spaceLeadBytes :: "char list" where
  "spaceLeadBytes = [CHR 0x09, CHR 0x0A, CHR 0x0B, CHR 0x0C, CHR 0x0D, CHR 0x20, CHR 0xC2, CHR 0xE1, CHR 0xE2, CHR 0xE3]"

text \<open>What escaping does to one character.\<close>

definition escapeChar :: "char \<Rightarrow> string" where
  "escapeChar c = (if c = BSL \<or> c = CHR '';'' \<or> c = CHR '','' then [BSL, c] else [c])"

text \<open>The calls the scan of the existing events issues for one of them.\<close>

definition scanCalls :: "world \<Rightarrow> string \<Rightarrow> Event list \<Rightarrow> GCalEvent \<Rightarrow> gcal_call list" where
  "scanCalls w syncTime desired item =
     (case extractStravaID (ICalUID item) of
        None \<Rightarrow> []
      | Some i \<Rightarrow> (case desiredEvent desired i of
                     None \<Rightarrow> [EventsDelete (gId item)]
                   | Some e \<Rightarrow> if differs w syncTime item e
                              then [EventsUpdate (gId item) (createGoogleCalendarEvent w e syncTime)]
                              else []))"

text \<open>What the calendar holds in the place of an existing event after the scan.\<close>

definition itemAfter :: "world \<Rightarrow> string \<Rightarrow> Event list \<Rightarrow> GCalEvent \<Rightarrow> GCalEvent list" where
  "itemAfter w syncTime desired item =
     (case extractStravaID (ICalUID item) of
        None \<Rightarrow> [item]
      | Some i \<Rightarrow> (case desiredEvent desired i of
                     None \<Rightarrow> []
                   | Some e \<Rightarrow> if differs w syncTime item e
                              then [(createGoogleCalendarEvent w e syncTime)\<lparr>gId := gId item\<rparr>]
                              else [item]))"

text \<open>
  The start and the end of an event are read back from their RFC 3339 strings: instants
  on whole seconds, in years 0 to 9999, when London's offset is a whole number of
  minutes.
\<close>

definition survivesRFC3339 :: "world \<Rightarrow> Event \<Rightarrow> bool" where
  "survivesRFC3339 w e =
     (parseRFC3339 w (time_FormatLondon w RFC3339 (Start e)) = Start e \<and>
      parseRFC3339 w (time_FormatLondon w RFC3339 (End e)) = End e)"

section \<open>Lemmas\<close>

subsection \<open>The loops as list functions\<close>

lemma next60Loop_filter:
  "next60Loop now lim events acc = acc @ filter (\<lambda>e. now < Start e \<and> Start e < lim) events"
  by (induction events arbitrary: acc) auto

lemma filterLoop_filter:
  "filterLoop lim events acc = acc @ filter (\<lambda>e. lim < Start e) events"
  by (induction events arbitrary: acc) auto


subsection \<open>Decimal numbers and the scanner\<close>

lemma nth_digit: "digitChar 0 = CHR ''0''" "digitChar 1 = CHR ''1''" "digitChar (Suc 0) = CHR ''1''" "digitChar 2 = CHR ''2''"
  "digitChar 3 = CHR ''3''" "digitChar 4 = CHR ''4''" "digitChar 5 = CHR ''5''" "digitChar 6 = CHR ''6''"
  "digitChar 7 = CHR ''7''" "digitChar 8 = CHR ''8''" "digitChar 9 = CHR ''9''"
  by (simp_all add: digitChar_def)

lemma digit_cases: "d < 10 \<Longrightarrow> d = 0 \<or> d = 1 \<or> d = 2 \<or> d = 3 \<or> d = 4 \<or> d = 5 \<or> d = 6 \<or> d = 7 \<or> d = 8 \<or> d = (9::nat)"
  by arith

lemma isDigit_digitChar: assumes "d < 10" shows "isDigit (digitChar d)"
  using digit_cases[OF assms] by (elim disjE) (simp_all add: nth_digit isDigit_def)

lemma digitVal_digitChar: assumes "d < 10" shows "digitVal (digitChar d) = d"
  using digit_cases[OF assms] by (elim disjE) (simp_all add: nth_digit digitVal_def)

lemma natToDec_digits: "c \<in> set (natToDec n) \<Longrightarrow> isDigit c"
proof (induction n arbitrary: c rule: natToDec.induct)
  case (1 n)
  show ?case
  proof (cases "n < 10")
    case True
    with "1.prems" show ?thesis by (simp add: natToDec.simps[of n] isDigit_digitChar)
  next
    case False
    with "1.prems" "1.IH" show ?thesis
      by (auto simp: natToDec.simps[of n] isDigit_digitChar)
  qed
qed

lemma natToDec_nonempty: "natToDec n \<noteq> []"
  by (subst natToDec.simps) simp

lemma decVal_snoc: "decVal (ds @ [c]) = 10 * decVal ds + digitVal c"
  by (simp add: decVal_def)

lemma decVal_natToDec: "decVal (natToDec n) = n"
proof (induction n rule: natToDec.induct)
  case (1 n)
  show ?case
  proof (cases "n < 10")
    case True
    then show ?thesis by (simp add: natToDec.simps[of n] decVal_def digitVal_digitChar)
  next
    case False
    with "1.IH" show ?thesis
      by (simp add: natToDec.simps[of n] decVal_snoc digitVal_digitChar)
  qed
qed

lemma isDigit_cases: "isDigit c \<Longrightarrow> c \<in> set ''0123456789''"
  by (simp add: isDigit_def)

lemma matchLiteral_self: "matchLiteral lit (lit @ r) = None"
  by (induction lit) auto

lemma takeWhile_digits: "(\<And>c. c \<in> set ds \<Longrightarrow> isDigit c) \<Longrightarrow> lit = [] \<or> \<not> isDigit (hd lit) \<Longrightarrow> takeWhile isDigit (ds @ lit) = ds"
  by (cases lit) (auto simp: takeWhile_append2)

lemma dropWhile_digits: "(\<And>c. c \<in> set ds \<Longrightarrow> isDigit c) \<Longrightarrow> lit = [] \<or> \<not> isDigit (hd lit) \<Longrightarrow> dropWhile isDigit (ds @ lit) = lit"
  by (cases lit) (auto simp: dropWhile_append2)

lemma sint64_nonneg: "\<not> sint (v::int64) < 0 \<Longrightarrow> nat (sint v) < 2 ^ 63 \<and> word_of_nat (nat (sint v)) = v"
  using sint_lt[of v] by (simp add: nat_less_iff)

lemma sint64_neg: "sint (v::int64) < 0 \<Longrightarrow> nat (- sint v) \<le> 2 ^ 63 \<and> - word_of_nat (nat (- sint v)) = v"
  using sint_ge[of v] by (simp add: nat_le_iff)


lemma spaceEncodings_lead: "p \<in> set spaceEncodings \<Longrightarrow> p \<noteq> [] \<and> hd p \<in> set spaceLeadBytes"
  unfolding spaceEncodings_def spaceLeadBytes_def by auto

lemma leadingSpace_other:
  assumes "c \<notin> set spaceLeadBytes"
  shows "leadingSpace (c # s) = 0"
proof -
  have "\<not> prefix p (c # s)" if "p \<in> set spaceEncodings" for p
  proof
    assume "prefix p (c # s)"
    moreover from that have "p \<noteq> []" "hd p \<in> set spaceLeadBytes"
      using spaceEncodings_lead by auto
    ultimately have "hd p = c" by (cases p) auto
    with \<open>hd p \<in> set spaceLeadBytes\<close> assms show False by simp
  qed
  then have "List.find (\<lambda>p. prefix p (c # s)) spaceEncodings = None"
    by (simp add: find_None_iff)
  then show ?thesis by (simp add: leadingSpace_def)
qed

lemma digit_not_lead: "isDigit c \<Longrightarrow> c \<notin> set spaceLeadBytes"
  by (auto simp: isDigit_def spaceLeadBytes_def)

lemma minus_not_lead: "CHR ''-'' \<notin> set spaceLeadBytes"
  by (simp add: spaceLeadBytes_def)

lemma SkipSpace_other: "c \<notin> set spaceLeadBytes \<Longrightarrow> SkipSpace (c # s) = Inr (c # s)"
  using leadingSpace_other[of c s] by (simp add: spaceLeadBytes_def SkipSpace.simps)

lemma hd_natToDec: "isDigit (hd (natToDec n))"
  using natToDec_digits[of "hd (natToDec n)" n] natToDec_nonempty[of n] by simp

lemma ParseInt_pos: "n < 2 ^ 63 \<Longrightarrow> ParseInt (natToDec n) = Inr (word_of_nat n)"
  using hd_natToDec[of n] natToDec_nonempty[of n]
  by (auto simp: ParseInt_def Let_def decVal_natToDec isDigit_def)

lemma ParseInt_neg: "n \<le> 2 ^ 63 \<Longrightarrow> ParseInt (CHR ''-'' # natToDec n) = Inr (- word_of_nat n)"
  by (simp add: ParseInt_def Let_def decVal_natToDec)

lemma Sscanf_d_pos:
  assumes "n < 2 ^ 63" and "lit \<noteq> []" and "\<not> isDigit (hd lit)"
  shows "Sscanf_d (natToDec n @ lit @ r) lit v0 = (1, None, word_of_nat n)"
proof -
  obtain c cs where cs: "natToDec n = c # cs" using natToDec_nonempty[of n] by (cases "natToDec n") auto
  have dc: "isDigit c" using hd_natToDec[of n] cs by simp
  then have nosign: "c \<noteq> CHR ''+''" "c \<noteq> CHR ''-''" by (auto simp: isDigit_def)
  have ss: "SkipSpace (natToDec n @ lit @ r) = Inr (natToDec n @ lit @ r)"
    using SkipSpace_other[OF digit_not_lead[OF dc]] cs by simp
  have lr: "lit @ r = [] \<or> \<not> isDigit (hd (lit @ r))"
    using assms(2,3) by (cases lit) auto
  have tw: "takeWhile isDigit (natToDec n @ lit @ r) = natToDec n"
    using takeWhile_digits[OF natToDec_digits lr] by simp
  have dw: "dropWhile isDigit (natToDec n @ lit @ r) = lit @ r"
    using dropWhile_digits[OF natToDec_digits lr] by simp
  show ?thesis
    unfolding Sscanf_d_def ss
    using nosign dc tw dw ParseInt_pos[OF assms(1)] matchLiteral_self[of lit r] cs
    by (simp add: Let_def)
qed


lemma Sscanf_d_neg:
  assumes "n \<le> 2 ^ 63" and "lit \<noteq> []" and "\<not> isDigit (hd lit)"
  shows "Sscanf_d (CHR ''-'' # natToDec n @ lit @ r) lit v0 = (1, None, - word_of_nat n)"
proof -
  obtain c cs where cs: "natToDec n = c # cs" using natToDec_nonempty[of n] by (cases "natToDec n") auto
  have dc: "isDigit c" using hd_natToDec[of n] cs by simp
  have ss: "SkipSpace (CHR ''-'' # natToDec n @ lit @ r) = Inr (CHR ''-'' # natToDec n @ lit @ r)"
    using SkipSpace_other[OF minus_not_lead] by simp
  have lr: "lit @ r = [] \<or> \<not> isDigit (hd (lit @ r))"
    using assms(2,3) by (cases lit) auto
  have tw: "takeWhile isDigit (natToDec n @ lit @ r) = natToDec n"
    using takeWhile_digits[OF natToDec_digits lr] by simp
  have dw: "dropWhile isDigit (natToDec n @ lit @ r) = lit @ r"
    using dropWhile_digits[OF natToDec_digits lr] by simp
  show ?thesis
    unfolding Sscanf_d_def ss
    using dc tw dw ParseInt_neg[OF assms(1)] matchLiteral_self[of lit r] cs
    by (simp add: Let_def)
qed

lemma Sscanf_Sprintf:
  assumes "lit \<noteq> []" and "\<not> isDigit (hd lit)"
  shows "Sscanf_d (Sprintf_d v @ lit @ r) lit v0 = (1, None, v)"
proof (cases "sint v < 0")
  case True
  then show ?thesis
    using Sscanf_d_neg[OF _ assms, of "nat (- sint v)" r v0] sint64_neg[OF True]
    by (simp add: Sprintf_d_def)
next
  case False
  then show ?thesis
    using Sscanf_d_pos[OF _ assms, of "nat (sint v)" r v0] sint64_nonneg[OF False]
    by (simp add: Sprintf_d_def)
qed


lemmas scan_defs = extractStravaID_def Sscanf_d_def SkipSpace.simps leadingSpace_def spaceEncodings_def
  isDigit_def ParseInt_def decVal_def digitVal_def Let_def

subsection \<open>Escaping\<close>

lemma ReplaceAll_char:
  "ReplaceAll s [c] new = concat (map (\<lambda>x. if x = c then new else [x]) s)"
  by (induction s) auto

lemma escapeICSText0_chars: "escapeICSText0 s = concat (map escapeChar s)"
  unfolding escapeICSText0_def Let_def ReplaceAll_char
  by (induction s) (auto simp: escapeChar_def)

lemma set_escape: "set (concat (map escapeChar s)) \<subseteq> insert BSL (set s)"
  by (induction s) (auto simp: escapeChar_def)


lemma ReplaceAll_absent:
  "old \<noteq> [] \<Longrightarrow> hd old \<notin> set s \<Longrightarrow> ReplaceAll s old new = s"
proof (induction s)
  case Nil
  then show ?case by simp
next
  case (Cons c s)
  from Cons.prems have "\<not> prefix old (c # s)"
    by (cases old) auto
  with Cons show ?case by simp
qed

lemma unescape_step: "unescapeText (escapeChar c @ r) = c # unescapeText r"
  by (cases r) (auto simp: escapeChar_def)

lemma unescape_escape: "unescapeText (concat (map escapeChar s)) = s"
  by (induction s) (simp_all add: unescape_step)

lemma escapeICSText_chars:
  assumes "CR \<notin> set s" "LF \<notin> set s"
  shows "escapeICSText s = concat (map escapeChar s)"
proof -
  let ?e = "concat (map escapeChar s)"
  have e0: "ReplaceAll (ReplaceAll (ReplaceAll s [BSL] [BSL, BSL]) '';'' [BSL, CHR '';'']) '','' [BSL, CHR '',''] = ?e"
    using escapeICSText0_chars[of s] by (simp add: escapeICSText0_def Let_def)
  have no: "CR \<notin> set ?e" "LF \<notin> set ?e"
    using set_escape[of s] assms by auto
  show ?thesis
    unfolding escapeICSText_def Let_def e0
    using no by (simp add: ReplaceAll_absent)
qed


subsection \<open>Folding\<close>

lemma foldLoop_acc: "foldLoop ln result = result @ foldLoop ln []"
proof (induction "length ln" arbitrary: ln result rule: less_induct)
  case less
  show ?case
  proof (cases "length ln > 75")
    case True
    then have "length (drop 75 ln) < length ln" by simp
    from less[OF this] have ih: "foldLoop (drop 75 ln) r = r @ foldLoop (drop 75 ln) []" for r .
    show ?thesis
      using True ih[of "result @ take 75 ln @ [CR, LF, CHR '' '']"] ih[of "take 75 ln @ [CR, LF, CHR '' '']"]
      by (simp add: foldLoop.simps[of ln])
  next
    case False
    then show ?thesis by (simp add: foldLoop.simps[of ln])
  qed
qed

lemma foldLine_unfold:
  "foldLine ln =
     (if length ln > 75 then take 75 ln @ [CR, LF, CHR '' ''] @ foldLine (drop 75 ln) else ln)"
proof -
  have fl: "foldLine t = foldLoop t []" for t
    by (simp add: foldLine_def foldLoop.simps[of t])
  show ?thesis
    unfolding fl using foldLoop_acc[of "drop 75 ln" "take 75 ln @ [CR, LF, CHR '' '']"]
    by (simp add: foldLoop.simps[of ln "[]"])
qed

lemma ReplaceAll_skip:
  "old \<noteq> [] \<Longrightarrow> hd old \<notin> set a \<Longrightarrow> ReplaceAll (a @ b) old new = a @ ReplaceAll b old new"
proof (induction a)
  case Nil
  then show ?case by simp
next
  case (Cons c a)
  from Cons.prems have "\<not> prefix old (c # a @ b)"
    by (cases old) auto
  with Cons show ?case by simp
qed

lemma ReplaceAll_match:
  "old \<noteq> [] \<Longrightarrow> ReplaceAll (old @ b) old new = new @ ReplaceAll b old new"
  by (cases old) auto

lemma unfold_foldLine: "CR \<notin> set ln \<Longrightarrow> unfoldLines (foldLine ln @ r) = ln @ unfoldLines r"
proof (induction "length ln" arbitrary: ln rule: less_induct)
  case less
  show ?case
  proof (cases "length ln > 75")
    case True
    then have "length (drop 75 ln) < length ln" by simp
    moreover have "CR \<notin> set (drop 75 ln)" "CR \<notin> set (take 75 ln)"
      using less.prems by (auto dest: in_set_dropD in_set_takeD)
    ultimately have ih: "unfoldLines (foldLine (drop 75 ln) @ r) = drop 75 ln @ unfoldLines r"
      using less.hyps by blast
    have "unfoldLines (foldLine ln @ r)
            = ReplaceAll (take 75 ln @ ([CR, LF, CHR '' ''] @ (foldLine (drop 75 ln) @ r))) [CR, LF, CHR '' ''] []"
      using True by (subst foldLine_unfold) (simp add: unfoldLines_def)
    also have "\<dots> = take 75 ln @ ReplaceAll ([CR, LF, CHR '' ''] @ (foldLine (drop 75 ln) @ r)) [CR, LF, CHR '' ''] []"
      using \<open>CR \<notin> set (take 75 ln)\<close> by (intro ReplaceAll_skip) simp_all
    also have "\<dots> = take 75 ln @ unfoldLines (foldLine (drop 75 ln) @ r)"
      unfolding unfoldLines_def by (subst ReplaceAll_match) simp_all
    finally show ?thesis using ih by simp
  next
    case False
    then have "foldLine ln = ln" by (simp add: foldLine_def)
    with less.prems show ?thesis
      using ReplaceAll_skip[of "[CR, LF, CHR '' '']" ln r "[]"]
      by (simp add: unfoldLines_def)
  qed
qed

lemma physicalLines_append:
  "CR \<notin> set a \<Longrightarrow> physicalLines (a @ CR # LF # b) = a # physicalLines b"
proof (induction a)
  case Nil
  then show ?case by simp
next
  case (Cons c a)
  then have ih: "physicalLines (a @ CR # LF # b) = a # physicalLines b" and c: "c \<noteq> CR"
    by auto
  obtain d ds where d: "a @ CR # LF # b = d # ds"
    by (cases "a @ CR # LF # b") auto
  show ?case
    using ih c unfolding d append_Cons by simp
qed

lemma foldLine_lines:
  "CR \<notin> set ln \<Longrightarrow> CR \<notin> set pre \<Longrightarrow> length pre \<le> 1 \<Longrightarrow>
     l \<in> set (physicalLines (pre @ foldLine ln @ [CR, LF])) \<Longrightarrow> length l \<le> 76"
proof (induction "length ln" arbitrary: ln pre rule: less_induct)
  case less
  show ?case
  proof (cases "length ln > 75")
    case True
    then have lt: "length (drop 75 ln) < length ln" by simp
    have nocr: "CR \<notin> set (drop 75 ln)" "CR \<notin> set (pre @ take 75 ln)"
      using less.prems by (auto dest: in_set_dropD in_set_takeD)
    have "pre @ foldLine ln @ [CR, LF]
            = (pre @ take 75 ln) @ CR # LF # ([CHR '' ''] @ foldLine (drop 75 ln) @ [CR, LF])"
      using True by (subst foldLine_unfold) simp
    then have "physicalLines (pre @ foldLine ln @ [CR, LF])
            = (pre @ take 75 ln) # physicalLines ([CHR '' ''] @ foldLine (drop 75 ln) @ [CR, LF])"
      using physicalLines_append[OF nocr(2)] by simp
    with less.prems(4) consider "l = pre @ take 75 ln"
      | "l \<in> set (physicalLines ([CHR '' ''] @ foldLine (drop 75 ln) @ [CR, LF]))"
      by auto
    then show ?thesis
    proof cases
      case 1
      with less.prems(3) show ?thesis by simp
    next
      case 2
      show ?thesis
        by (rule less.hyps[OF lt nocr(1) _ _ 2]) simp_all
    qed
  next
    case False
    then have "foldLine ln = ln" by (simp add: foldLine_def)
    moreover have "CR \<notin> set (pre @ ln)" using less.prems by simp
    ultimately have "physicalLines (pre @ foldLine ln @ [CR, LF]) = [pre @ ln, []]"
      using physicalLines_append[of "pre @ ln" "[]"] by simp
    with less.prems False show ?thesis by auto
  qed
qed

lemma set_ReplaceAll_char: "set (ReplaceAll s [c] new) \<subseteq> (set s - {c}) \<union> set new"
  unfolding ReplaceAll_char by (induction s) auto

lemma escapeICSText_no_breaks: "CR \<notin> set (escapeICSText s) \<and> LF \<notin> set (escapeICSText s)"
proof -
  define s4 where "s4 = ReplaceAll (ReplaceAll (ReplaceAll (ReplaceAll s [BSL] [BSL, BSL]) '';'' [BSL, CHR '';''])
                           '','' [BSL, CHR '','']) [CR, LF] [BSL, CHR ''n'']"
  define s5 where "s5 = ReplaceAll s4 [LF] [BSL, CHR ''n'']"
  have e: "escapeICSText s = ReplaceAll s5 [CR] [BSL, CHR ''n'']"
    by (simp add: escapeICSText_def s4_def s5_def)
  have "LF \<notin> set s5"
    using set_ReplaceAll_char[of s4 LF "[BSL, CHR ''n'']"] unfolding s5_def by auto
  then show ?thesis
    using set_ReplaceAll_char[of s5 CR "[BSL, CHR ''n'']"] unfolding e by auto
qed

lemma formatICSProperty_unfold:
  assumes "CR \<notin> set property"
  shows "unfoldLines (formatICSProperty property v)
           = property @ '':'' @ escapeICSText (stripHTML v) @ [CR, LF]"
proof -
  have "CR \<notin> set (property @ '':'' @ escapeICSText (stripHTML v))"
    using assms escapeICSText_no_breaks[of "stripHTML v"] by simp
  from unfold_foldLine[OF this, of "[CR, LF]"] show ?thesis
    by (simp add: formatICSProperty_def Let_def unfoldLines_def)
qed

lemma formatICSProperty_lines:
  assumes "CR \<notin> set property" and "l \<in> set (physicalLines (formatICSProperty property v))"
  shows "length l \<le> 76"
proof -
  have "CR \<notin> set (property @ '':'' @ escapeICSText (stripHTML v))"
    using assms(1) escapeICSText_no_breaks[of "stripHTML v"] by simp
  from foldLine_lines[OF this, of "[]" l] assms(2) show ?thesis
    by (simp add: formatICSProperty_def Let_def)
qed


subsection \<open>The reconciler\<close>

lemma foldl_map_upd_lookup:
  "distinct (map ID events) \<Longrightarrow>
     foldl (\<lambda>m event. m(ID event \<mapsto> event)) m0 events k
       = (case List.find (\<lambda>e. ID e = k) events of None \<Rightarrow> m0 k | Some e \<Rightarrow> Some e)"
proof (induction events arbitrary: m0)
  case Nil
  then show ?case by simp
next
  case (Cons e es)
  show ?case
  proof (cases "ID e = k")
    case True
    have "ID e \<notin> ID ` set es"
      using Cons.prems by simp
    then have "ID x \<noteq> k" if "x \<in> set es" for x
      using that True by (metis imageI)
    then have "List.find (\<lambda>e. ID e = k) es = None"
      by (simp add: find_None_iff)
    with True Cons show ?thesis by simp
  next
    case False
    with Cons show ?thesis by simp
  qed
qed

lemma stravaEventMapOf_desiredEvent:
  "distinct (map ID desired) \<Longrightarrow> stravaEventMapOf desired = desiredEvent desired"
  by (rule ext) (simp add: stravaEventMapOf_def desiredEvent_def foldl_map_upd_lookup split: option.splits)

lemma needsUpdate_differs:
  "needsUpdate w syncTime (STRAVA_CLUB_ID w) item e = differs w syncTime item e"
  by (auto simp: needsUpdate_def differs_def Let_def)

lemma refProcessed_Cons:
  "refProcessed desired (item # items)
     = (case extractStravaID (ICalUID item) of
          None \<Rightarrow> []
        | Some i \<Rightarrow> (case desiredEvent desired i of None \<Rightarrow> [] | Some e \<Rightarrow> [i]))
       @ refProcessed desired items"
  by (simp add: refProcessed_def)

lemma existingLoop_scanCalls:
  assumes "STRAVA_CLUB_ID w \<noteq> []"
  shows "existingLoop w syncTime (desiredEvent desired) existing P calls
       = (P \<union> set (refProcessed desired existing),
          calls @ concat (map (scanCalls w syncTime desired) existing), None)"
proof (induction existing arbitrary: P calls)
  case Nil
  then show ?case by (simp add: refProcessed_def)
next
  case (Cons item items)
  have club: "getClubID w = Inr (STRAVA_CLUB_ID w)"
    using assms by (simp add: getClubID_def)
  show ?case
  proof (cases "extractStravaID (ICalUID item)")
    case None
    then show ?thesis
      by (simp add: Cons.IH refProcessed_Cons scanCalls_def)
  next
    case (Some i)
    show ?thesis
    proof (cases "desiredEvent desired i")
      case None
      with Some show ?thesis
        by (simp add: Cons.IH refProcessed_Cons scanCalls_def)
    next
      case (Some e)
      with \<open>extractStravaID (ICalUID item) = Some i\<close> show ?thesis
        by (simp add: Cons.IH refProcessed_Cons scanCalls_def club needsUpdate_differs)
    qed
  qed
qed

lemma createLoop_filter:
  "createLoop w syncTime P events calls
     = calls @ map (\<lambda>e. EventsInsert (createGoogleCalendarEvent w e syncTime))
                 (filter (\<lambda>e. ID e \<notin> P) events)"
  by (induction events arbitrary: calls) auto


lemma existingLoop_skip:
  "extractStravaID (ICalUID g) = None \<Longrightarrow>
     existingLoop w syncTime m (xs @ g # ys) P calls = existingLoop w syncTime m (xs @ ys) P calls"
  by (induction xs arbitrary: P calls) (auto split: option.splits sum.splits)

lemma sync_skip:
  "extractStravaID (ICalUID g) = None \<Longrightarrow>
     syncStravaEvents w now events (Inr (xs @ g # ys)) = syncStravaEvents w now events (Inr (xs @ ys))"
  by (simp add: syncStravaEvents_def existingLoop_skip)


subsection \<open>The calendar after a run, and the run after it\<close>

lemma filter_other_ids: "i \<notin> gId ` set xs \<Longrightarrow> filter (\<lambda>x. gId x \<noteq> i) xs = xs"
  by (induction xs) auto

lemma map_other_ids: "i \<notin> gId ` set xs \<Longrightarrow> map (\<lambda>x. if gId x = i then r else x) xs = xs"
  by (induction xs) auto

lemma applyCall_delete_at:
  "gId g \<notin> gId ` set pre \<Longrightarrow> gId g \<notin> gId ` set gs \<Longrightarrow>
     applyCall (pre @ g # gs) (EventsDelete (gId g)) = pre @ gs"
  by (simp add: filter_other_ids)

lemma applyCall_update_at:
  "gId g \<notin> gId ` set pre \<Longrightarrow> gId g \<notin> gId ` set gs \<Longrightarrow>
     applyCall (pre @ g # gs) (EventsUpdate (gId g) r) = pre @ r\<lparr>gId := gId g\<rparr> # gs"
  by (simp add: map_other_ids)

lemma itemAfter_ids: "g' \<in> set (itemAfter w syncTime desired g) \<Longrightarrow> gId g' = gId g"
  by (auto simp: itemAfter_def split: option.splits if_splits)

lemma apply_scanCalls:
  "distinct (map gId (pre @ gs)) \<Longrightarrow>
     foldl applyCall (pre @ gs) (concat (map (scanCalls w syncTime desired) gs))
       = pre @ concat (map (itemAfter w syncTime desired) gs)"
proof (induction gs arbitrary: pre)
  case Nil
  then show ?case by simp
next
  case (Cons g gs)
  have ids: "gId g \<notin> gId ` set pre" "gId g \<notin> gId ` set gs"
    using Cons.prems by auto
  have d1: "distinct (map gId (pre @ gs))"
    using Cons.prems by auto
  have d2: "distinct (map gId ((pre @ [g']) @ gs))" if "gId g' = gId g" for g'
    using Cons.prems that by auto
  show ?case
  proof (cases "extractStravaID (ICalUID g)")
    case None
    then show ?thesis
      using Cons.IH[OF d2[of g]] by (simp add: scanCalls_def itemAfter_def)
  next
    case (Some i)
    show ?thesis
    proof (cases "desiredEvent desired i")
      case None
      with Some show ?thesis
        using Cons.IH[OF d1] applyCall_delete_at[OF ids]
        by (simp add: scanCalls_def itemAfter_def)
    next
      case (Some e)
      show ?thesis
      proof (cases "differs w syncTime g e")
        case True
        let ?r = "createGoogleCalendarEvent w e syncTime"
        have "gId (?r\<lparr>gId := gId g\<rparr>) = gId g" by simp
        from Cons.IH[OF d2[OF this]] True Some \<open>extractStravaID (ICalUID g) = Some i\<close>
        show ?thesis
          using applyCall_update_at[OF ids, of ?r]
          by (simp add: scanCalls_def itemAfter_def)
      next
        case False
        with Some \<open>extractStravaID (ICalUID g) = Some i\<close> show ?thesis
          using Cons.IH[OF d2[of g]] by (simp add: scanCalls_def itemAfter_def)
      qed
    qed
  qed
qed


lemma extractStravaID_formatted:
  "extractStravaID (Sprintf_d v @ ''@strava.com'') = (if v = 0 then None else Some v)"
proof -
  have scan: "Sscanf_d (Sprintf_d v @ ''@strava.com'') ''@strava.com'' 0 = (1, None, v)"
    using Sscanf_Sprintf[of "''@strava.com''" v "[]" 0] by (simp add: isDigit_def)
  have "Sprintf_d v @ ''@strava.com'' \<noteq> []" by simp
  with scan show ?thesis by (simp add: extractStravaID_def)
qed

lemma extractStravaID_nonzero: "extractStravaID uid = Some i \<Longrightarrow> i \<noteq> 0"
  by (auto simp: extractStravaID_def split: if_splits prod.splits)

lemma zero_id_not_managed: "extractStravaID (Sprintf_d 0 @ ''@strava.com'') = None"
  by (simp add: extractStravaID_formatted)

lemma desiredEvent_SomeD: "desiredEvent desired i = Some e \<Longrightarrow> ID e = i \<and> e \<in> set desired"
  by (auto simp: desiredEvent_def find_Some_iff)

lemma desiredEvent_member:
  "distinct (map ID desired) \<Longrightarrow> e \<in> set desired \<Longrightarrow> desiredEvent desired (ID e) = Some e"
proof (induction desired)
  case Nil
  then show ?case by simp
next
  case (Cons d ds)
  show ?case
  proof (cases "e = d")
    case True
    then show ?thesis by (simp add: desiredEvent_def)
  next
    case False
    with Cons.prems have "e \<in> set ds" by simp
    moreover from Cons.prems have "ID d \<notin> ID ` set ds" by simp
    ultimately have "ID d \<noteq> ID e" by (metis imageI)
    with Cons \<open>e \<in> set ds\<close> show ?thesis by (simp add: desiredEvent_def)
  qed
qed

lemma created_settled:
  assumes "STRAVA_CLUB_ID w \<noteq> []" and "ID e \<noteq> 0" and "survivesRFC3339 w e"
    and "desiredEvent desired (ID e) = Some e"
  shows "extractStravaID (ICalUID ((createGoogleCalendarEvent w e syncTime)\<lparr>gId := i\<rparr>)) = Some (ID e)"
    and "scanCalls w syncTime desired ((createGoogleCalendarEvent w e syncTime)\<lparr>gId := i\<rparr>) = []"
proof -
  show uid: "extractStravaID (ICalUID ((createGoogleCalendarEvent w e syncTime)\<lparr>gId := i\<rparr>)) = Some (ID e)"
    using assms(2) by (simp add: createGoogleCalendarEvent_def Let_def extractStravaID_formatted)
  have "\<not> differs w syncTime ((createGoogleCalendarEvent w e syncTime)\<lparr>gId := i\<rparr>) e"
    using assms(1,3)
    by (simp add: differs_def createGoogleCalendarEvent_def Let_def getClubID_def survivesRFC3339_def)
  with uid assms(4) show "scanCalls w syncTime desired ((createGoogleCalendarEvent w e syncTime)\<lparr>gId := i\<rparr>) = []"
    by (simp add: scanCalls_def)
qed

lemma itemAfter_settled:
  assumes "STRAVA_CLUB_ID w \<noteq> []" and "distinct (map ID desired)"
    and "\<And>e. e \<in> set desired \<Longrightarrow> survivesRFC3339 w e"
    and "g' \<in> set (itemAfter w syncTime desired g)"
  shows "scanCalls w syncTime desired g' = []"
proof (cases "extractStravaID (ICalUID g)")
  case None
  with assms(4) show ?thesis by (simp add: itemAfter_def scanCalls_def)
next
  case (Some i)
  show ?thesis
  proof (cases "desiredEvent desired i")
    case None
    with Some assms(4) show ?thesis by (simp add: itemAfter_def)
  next
    case (Some e)
    note ev = this
    have e: "ID e = i" "e \<in> set desired" using desiredEvent_SomeD[OF ev] by auto
    have nz: "ID e \<noteq> 0" using extractStravaID_nonzero[OF \<open>extractStravaID (ICalUID g) = Some i\<close>] e by simp
    show ?thesis
    proof (cases "differs w syncTime g e")
      case True
      with ev \<open>extractStravaID (ICalUID g) = Some i\<close> assms(4)
      have "g' = (createGoogleCalendarEvent w e syncTime)\<lparr>gId := gId g\<rparr>"
        by (simp add: itemAfter_def)
      then show ?thesis
        using created_settled(2)[OF assms(1) nz assms(3)[OF e(2)]] ev e by simp
    next
      case False
      with ev \<open>extractStravaID (ICalUID g) = Some i\<close> assms(4) show ?thesis
        by (simp add: itemAfter_def scanCalls_def)
    qed
  qed
qed

lemma itemAfter_keeps_id:
  assumes "extractStravaID (ICalUID g) = Some i" and "desiredEvent desired i = Some e"
  shows "\<exists>g'\<in>set (itemAfter w syncTime desired g). extractStravaID (ICalUID g') = Some i"
proof -
  have e: "ID e = i" using desiredEvent_SomeD[OF assms(2)] by simp
  have nz: "i \<noteq> 0" using extractStravaID_nonzero[OF assms(1)] .
  show ?thesis
    using assms e nz
    by (simp add: itemAfter_def createGoogleCalendarEvent_def Let_def extractStravaID_formatted)
qed

lemma set_refProcessed:
  "set (refProcessed desired cal)
     = {i. \<exists>g\<in>set cal. extractStravaID (ICalUID g) = Some i \<and> desiredEvent desired i \<noteq> None}"
proof (induction cal)
  case Nil
  then show ?case by (simp add: refProcessed_def)
next
  case (Cons g cal)
  show ?case
  proof (cases "extractStravaID (ICalUID g)")
    case None
    with Cons show ?thesis by (auto simp: refProcessed_Cons)
  next
    case (Some i)
    with Cons show ?thesis
      by (cases "desiredEvent desired i") (auto simp: refProcessed_Cons)
  qed
qed

lemma inserts_keep: "set cal \<subseteq> set (foldl applyCall cal (map (\<lambda>e. EventsInsert (f e)) es))"
proof (induction es arbitrary: cal)
  case Nil
  then show ?case by simp
next
  case (Cons e es)
  have "set cal \<subseteq> set (cal @ [(f e)\<lparr>gId := freshId cal\<rparr>])" by auto
  also have "\<dots> \<subseteq> set (foldl applyCall (cal @ [(f e)\<lparr>gId := freshId cal\<rparr>]) (map (\<lambda>e. EventsInsert (f e)) es))"
    by (rule Cons.IH)
  finally show ?case by simp
qed

lemma inserts_added:
  "e \<in> set es \<Longrightarrow> \<exists>i. (f e)\<lparr>gId := i\<rparr> \<in> set (foldl applyCall cal (map (\<lambda>e. EventsInsert (f e)) es))"
proof (induction es arbitrary: cal)
  case Nil
  then show ?case by simp
next
  case (Cons d es)
  show ?case
  proof (cases "e = d")
    case True
    have "(f d)\<lparr>gId := freshId cal\<rparr> \<in> set (cal @ [(f d)\<lparr>gId := freshId cal\<rparr>])" by simp
    then have "(f d)\<lparr>gId := freshId cal\<rparr>
        \<in> set (foldl applyCall (cal @ [(f d)\<lparr>gId := freshId cal\<rparr>]) (map (\<lambda>e. EventsInsert (f e)) es))"
      using inserts_keep by blast
    with True show ?thesis by auto
  next
    case False
    with Cons.prems have "e \<in> set es" by simp
    from Cons.IH[OF this] show ?thesis by simp
  qed
qed

lemma inserts_only:
  "g \<in> set (foldl applyCall cal (map (\<lambda>e. EventsInsert (f e)) es)) \<Longrightarrow>
     g \<in> set cal \<or> (\<exists>e\<in>set es. \<exists>i. g = (f e)\<lparr>gId := i\<rparr>)"
proof (induction es arbitrary: cal)
  case Nil
  then show ?case by simp
next
  case (Cons d es)
  from Cons.prems have "g \<in> set (foldl applyCall (cal @ [(f d)\<lparr>gId := freshId cal\<rparr>]) (map (\<lambda>e. EventsInsert (f e)) es))"
    by simp
  from Cons.IH[OF this] show ?case by auto
qed


lemma sync_scan_refCreates:
  assumes "STRAVA_CLUB_ID w \<noteq> []" and "distinct (map ID desired)"
  shows "syncStravaEvents w now desired (Inr existing)
          = (concat (map (scanCalls w (time_FormatLondon w ''Mon, 2 Jan @ 3:04 PM'' now) desired) existing)
             @ refCreates w (time_FormatLondon w ''Mon, 2 Jan @ 3:04 PM'' now) desired existing, None)"
  using assms
  by (simp add: syncStravaEvents_def Let_def stravaEventMapOf_desiredEvent existingLoop_scanCalls
        createLoop_filter refCreates_def)


lemma calendar_after_run:
  assumes club: "STRAVA_CLUB_ID w \<noteq> []"
    and ids: "distinct (map ID desired)"
    and items: "distinct (map gId existing)"
  shows "reconcile_apply existing (fst (syncStravaEvents w now desired (Inr existing)))
    = foldl applyCall (concat (map (itemAfter w (time_FormatLondon w ''Mon, 2 Jan @ 3:04 PM'' now) desired) existing))
        (map (\<lambda>e. EventsInsert (createGoogleCalendarEvent w e (time_FormatLondon w ''Mon, 2 Jan @ 3:04 PM'' now)))
           (filter (\<lambda>e. ID e \<notin> set (refProcessed desired existing)) desired))"
  using apply_scanCalls[of "[]" existing w "time_FormatLondon w ''Mon, 2 Jan @ 3:04 PM'' now" desired] items
  by (simp add: sync_scan_refCreates[OF club ids] reconcile_apply_def refCreates_def)


lemma settled_after_run:
  assumes club: "STRAVA_CLUB_ID w \<noteq> []"
    and ids: "distinct (map ID desired)"
    and nonzero: "\<And>e. e \<in> set desired \<Longrightarrow> ID e \<noteq> 0"
    and times: "\<And>e. e \<in> set desired \<Longrightarrow> survivesRFC3339 w e"
    and g: "g \<in> set (foldl applyCall (concat (map (itemAfter w st desired) existing))
        (map (\<lambda>e. EventsInsert (createGoogleCalendarEvent w e st))
           (filter (\<lambda>e. ID e \<notin> P) desired)))"
  shows "scanCalls w st desired g = []"
proof -
  from inserts_only[OF g]
  consider g0 where "g0 \<in> set existing" "g \<in> set (itemAfter w st desired g0)"
    | e i where "e \<in> set desired" "g = (createGoogleCalendarEvent w e st)\<lparr>gId := i\<rparr>"
    by auto
  then show ?thesis
  proof cases
    case 1
    show ?thesis
    proof (rule itemAfter_settled[OF club ids])
      show "survivesRFC3339 w e" if "e \<in> set desired" for e
        using that by (rule times)
      show "g \<in> set (itemAfter w st desired g0)"
        by (rule 1(2))
    qed
  next
    case 2
    show ?thesis
      unfolding 2(2)
      by (rule created_settled(2)[OF club nonzero[OF 2(1)] times[OF 2(1)] desiredEvent_member[OF ids 2(1)]])
  qed
qed


lemma refProcessed_member:
  "g \<in> set cal \<Longrightarrow> extractStravaID (ICalUID g) = Some i \<Longrightarrow> desiredEvent desired i = Some e \<Longrightarrow>
     i \<in> set (refProcessed desired cal)"
  unfolding set_refProcessed by blast

lemma processed_after_run:
  assumes club: "STRAVA_CLUB_ID w \<noteq> []"
    and ids: "distinct (map ID desired)"
    and nonzero: "\<And>e. e \<in> set desired \<Longrightarrow> ID e \<noteq> 0"
    and times: "\<And>e. e \<in> set desired \<Longrightarrow> survivesRFC3339 w e"
    and e: "e \<in> set desired"
  shows "ID e \<in> set (refProcessed desired
      (foldl applyCall (concat (map (itemAfter w st desired) existing))
        (map (\<lambda>e. EventsInsert (createGoogleCalendarEvent w e st))
           (filter (\<lambda>e. ID e \<notin> set (refProcessed desired existing)) desired))))"
    (is "ID e \<in> set (refProcessed desired ?cal)")
proof (cases "ID e \<in> set (refProcessed desired existing)")
  case True
  then obtain g where g: "g \<in> set existing" "extractStravaID (ICalUID g) = Some (ID e)"
    unfolding set_refProcessed by blast
  from itemAfter_keeps_id[OF g(2) desiredEvent_member[OF ids e]]
  obtain g' where g': "g' \<in> set (itemAfter w st desired g)" "extractStravaID (ICalUID g') = Some (ID e)"
    by blast
  from g(1) g'(1) have "g' \<in> set (concat (map (itemAfter w st desired) existing))"
    by auto
  then have "g' \<in> set ?cal"
    by (rule subsetD[OF inserts_keep])
  then show ?thesis
    by (rule refProcessed_member[OF _ g'(2) desiredEvent_member[OF ids e]])
next
  case False
  with e have "e \<in> set (filter (\<lambda>e. ID e \<notin> set (refProcessed desired existing)) desired)"
    by simp
  from inserts_added[OF this, of "\<lambda>e. createGoogleCalendarEvent w e st"
         "concat (map (itemAfter w st desired) existing)"]
  obtain i where i: "(createGoogleCalendarEvent w e st)\<lparr>gId := i\<rparr> \<in> set ?cal"
    by blast
  show ?thesis
    by (rule refProcessed_member[OF i
          created_settled(1)[OF club nonzero[OF e] times[OF e] desiredEvent_member[OF ids e]]
          desiredEvent_member[OF ids e]])
qed


lemma second_run_same_time:
  assumes club: "STRAVA_CLUB_ID w \<noteq> []"
    and ids: "distinct (map ID desired)"
    and nonzero: "\<And>e. e \<in> set desired \<Longrightarrow> ID e \<noteq> 0"
    and times: "\<And>e. e \<in> set desired \<Longrightarrow> survivesRFC3339 w e"
    and items: "distinct (map gId existing)"
    and same: "time_FormatLondon w ''Mon, 2 Jan @ 3:04 PM'' later = time_FormatLondon w ''Mon, 2 Jan @ 3:04 PM'' now"
  shows "syncStravaEvents w later desired
           (Inr (reconcile_apply existing (fst (syncStravaEvents w now desired (Inr existing)))))
         = ([], None)"
proof -
  let ?st = "time_FormatLondon w ''Mon, 2 Jan @ 3:04 PM'' now"
  let ?cal = "reconcile_apply existing (fst (syncStravaEvents w now desired (Inr existing)))"
  note cal = calendar_after_run[OF club ids items, of now]
  have "scanCalls w ?st desired g = []" if "g \<in> set ?cal" for g
  proof (rule settled_after_run[OF club ids])
    show "ID e \<noteq> 0" if "e \<in> set desired" for e
      using that by (rule nonzero)
    show "survivesRFC3339 w e" if "e \<in> set desired" for e
      using that by (rule times)
    show "g \<in> set (foldl applyCall (concat (map (itemAfter w ?st desired) existing))
        (map (\<lambda>e. EventsInsert (createGoogleCalendarEvent w e ?st))
           (filter (\<lambda>e. ID e \<notin> set (refProcessed desired existing)) desired)))"
      using \<open>g \<in> set ?cal\<close> unfolding cal .
  qed
  then have scan: "concat (map (scanCalls w ?st desired) ?cal) = []"
    by simp
  have "ID e \<in> set (refProcessed desired ?cal)" if "e \<in> set desired" for e
    unfolding cal
  proof (rule processed_after_run[OF club ids])
    show "ID e \<noteq> 0" if "e \<in> set desired" for e
      using that by (rule nonzero)
    show "survivesRFC3339 w e" if "e \<in> set desired" for e
      using that by (rule times)
    show "e \<in> set desired"
      by (rule that)
  qed
  then have "refCreates w ?st desired ?cal = []"
    by (simp add: refCreates_def)
  with scan show ?thesis
    by (simp add: sync_scan_refCreates[OF club ids] same)
qed


subsection \<open>The sample data\<close>

lemma sample_create:
  "createGoogleCalendarEvent sampleWorld sampleEvent syncTime =
   \<lparr> gId = [], ICalUID = ''7@strava.com'', Summary = ''Tempo Run'', gLocation = ''Priory Park'',
     gDescription = composeDescription sampleEvent ''12345'' syncTime,
     StartDateTime = ''2026-11-08T09:00:00Z'', StartTimeZone = ''Europe/London'',
     EndDateTime = ''2026-11-08T10:00:00Z'', EndTimeZone = ''Europe/London'',
     SourceTitle = ''Strava'', SourceUrl = ''https://www.strava.com/clubs/12345/group_events/7'' \<rparr>"
proof -
  have "Sprintf_d 7 = ''7''" by code_simp
  then show ?thesis
    by (simp add: createGoogleCalendarEvent_def sampleWorld_def sampleEvent_def getClubID_def
          sampleFormat_def Hour_def sampleStart_def)
qed

lemma sample_uid: "extractStravaID ''7@strava.com'' = Some 7"
  by (simp add: scan_defs)

lemma sample_syncTime:
  "time_FormatLondon sampleWorld ''Mon, 2 Jan @ 3:04 PM'' sampleNow = ''Mon, 2 Nov @ 7:00 PM''"
  "time_FormatLondon sampleWorld ''Mon, 2 Jan @ 3:04 PM'' sampleLater = ''Mon, 2 Nov @ 7:15 PM''"
  by (simp_all add: sampleWorld_def sampleFormat_def RFC3339_def sampleNow_def sampleLater_def)

lemma sample_first_run:
  "syncStravaEvents sampleWorld sampleNow [sampleEvent] (Inr [])
     = ([EventsInsert (createGoogleCalendarEvent sampleWorld sampleEvent ''Mon, 2 Nov @ 7:00 PM'')], None)"
  by (simp add: syncStravaEvents_def sample_syncTime)

lemma sample_trim:
  "TrimSpace (composeDescription sampleEvent ''12345'' ''Mon, 2 Nov @ 7:00 PM'')
     \<noteq> TrimSpace (composeDescription sampleEvent ''12345'' ''Mon, 2 Nov @ 7:15 PM'')"
  by code_simp

lemma sample_times:
  "parseRFC3339 sampleWorld ''2026-11-08T09:00:00Z'' = Start sampleEvent"
  "parseRFC3339 sampleWorld ''2026-11-08T10:00:00Z'' = End sampleEvent"
  by (simp_all add: parseRFC3339_def sampleWorld_def sampleParse_def sampleEvent_def)


lemma sample_second_run_same_minute:
  "syncStravaEvents sampleWorld sampleNow [sampleEvent]
     (Inr (reconcile_apply [] (fst (syncStravaEvents sampleWorld sampleNow [sampleEvent] (Inr [])))))
   = ([], None)"
proof -
  have club: "getClubID sampleWorld = Inr ''12345''"
    by (simp add: getClubID_def sampleWorld_def)
  have m: "stravaEventMapOf [sampleEvent] 7 = Some sampleEvent"
    by (simp add: stravaEventMapOf_def sampleEvent_def)
  have cal: "reconcile_apply [] (fst (syncStravaEvents sampleWorld sampleNow [sampleEvent] (Inr [])))
      = [(createGoogleCalendarEvent sampleWorld sampleEvent ''Mon, 2 Nov @ 7:00 PM'')\<lparr>gId := ''x''\<rparr>]"
    by (simp add: sample_first_run reconcile_apply_def freshId_def)
  have nu: "\<not> needsUpdate sampleWorld ''Mon, 2 Nov @ 7:00 PM'' ''12345''
      ((createGoogleCalendarEvent sampleWorld sampleEvent ''Mon, 2 Nov @ 7:00 PM'')\<lparr>gId := ''x''\<rparr>) sampleEvent"
    using sample_times by (simp add: needsUpdate_def sample_create) (simp add: sampleEvent_def)
  have i7: "ID sampleEvent = 7" by (simp add: sampleEvent_def)
  show ?thesis
    unfolding cal
    using nu m club sample_uid i7
    by (simp add: syncStravaEvents_def sample_syncTime sample_create[where syncTime="''Mon, 2 Nov @ 7:00 PM''"])
qed

lemma zero_id_created_again:
  "syncStravaEvents sampleWorld sampleNow [sampleEvent\<lparr>ID := 0\<rparr>]
     (Inr (reconcile_apply [] (fst (syncStravaEvents sampleWorld sampleNow [sampleEvent\<lparr>ID := 0\<rparr>] (Inr [])))))
   = ([EventsInsert (createGoogleCalendarEvent sampleWorld (sampleEvent\<lparr>ID := 0\<rparr>) ''Mon, 2 Nov @ 7:00 PM'')], None)"
proof -
  have uid: "ICalUID (createGoogleCalendarEvent sampleWorld (sampleEvent\<lparr>ID := 0\<rparr>) st) = Sprintf_d 0 @ ''@strava.com''" for st
    by (simp add: createGoogleCalendarEvent_def Let_def)
  have first: "syncStravaEvents sampleWorld sampleNow [sampleEvent\<lparr>ID := 0\<rparr>] (Inr [])
      = ([EventsInsert (createGoogleCalendarEvent sampleWorld (sampleEvent\<lparr>ID := 0\<rparr>) ''Mon, 2 Nov @ 7:00 PM'')], None)"
    by (simp add: syncStravaEvents_def sample_syncTime)
  show ?thesis
    unfolding first
    by (simp add: syncStravaEvents_def sample_syncTime reconcile_apply_def uid extractStravaID_formatted)
qed


section \<open>The claims\<close>

text \<open>
  C1, at the sample event and an empty calendar. The first run, at 19:00, creates the
  event. The second run, at 19:15 with the same desired set and the calendar the first
  run left, issues an update: the description it compares embeds the time of the run.
\<close>

theorem second_run_updates:
  "syncStravaEvents sampleWorld sampleNow [sampleEvent] (Inr [])
     = ([EventsInsert (createGoogleCalendarEvent sampleWorld sampleEvent ''Mon, 2 Nov @ 7:00 PM'')], None) \<and>
   syncStravaEvents sampleWorld sampleLater [sampleEvent]
     (Inr (reconcile_apply [] (fst (syncStravaEvents sampleWorld sampleNow [sampleEvent] (Inr [])))))
     = ([EventsUpdate ''x'' (createGoogleCalendarEvent sampleWorld sampleEvent ''Mon, 2 Nov @ 7:15 PM'')], None)"
proof -
  have club: "getClubID sampleWorld = Inr ''12345''"
    by (simp add: getClubID_def sampleWorld_def)
  have m: "stravaEventMapOf [sampleEvent] 7 = Some sampleEvent"
    by (simp add: stravaEventMapOf_def sampleEvent_def)
  have cal: "reconcile_apply [] (fst (syncStravaEvents sampleWorld sampleNow [sampleEvent] (Inr [])))
      = [(createGoogleCalendarEvent sampleWorld sampleEvent ''Mon, 2 Nov @ 7:00 PM'')\<lparr>gId := ''x''\<rparr>]"
    by (simp add: sample_first_run reconcile_apply_def freshId_def)
  have nu: "needsUpdate sampleWorld ''Mon, 2 Nov @ 7:15 PM'' ''12345''
      ((createGoogleCalendarEvent sampleWorld sampleEvent ''Mon, 2 Nov @ 7:00 PM'')\<lparr>gId := ''x''\<rparr>) sampleEvent"
    using sample_trim by (simp add: needsUpdate_def sample_create)
  have i7: "ID sampleEvent = 7" by (simp add: sampleEvent_def)
  have "syncStravaEvents sampleWorld sampleLater [sampleEvent]
      (Inr (reconcile_apply [] (fst (syncStravaEvents sampleWorld sampleNow [sampleEvent] (Inr [])))))
      = ([EventsUpdate ''x'' (createGoogleCalendarEvent sampleWorld sampleEvent ''Mon, 2 Nov @ 7:15 PM'')], None)"
    unfolding cal
    using nu m club sample_uid i7
    by (simp add: syncStravaEvents_def sample_syncTime sample_create[where syncTime="''Mon, 2 Nov @ 7:00 PM''"])
  with sample_first_run show ?thesis
    by simp
qed

text \<open>
  C2, at an event of somebody else whose tag is \<open>2024@strava.community\<close>: the tag is not
  of the form \<open><integer>@strava.com\<close>, and the reconciler deletes the event.
\<close>

theorem lookalike_item_deleted:
  "ICalUID lookalikeItem = ''2024@strava.community'' \<and>
   syncStravaEvents sampleWorld sampleNow [sampleEvent] (Inr [lookalikeItem])
     = ([EventsDelete (gId lookalikeItem),
         EventsInsert (createGoogleCalendarEvent sampleWorld sampleEvent ''Mon, 2 Nov @ 7:00 PM'')], None)"
proof -
  have uid: "extractStravaID ''2024@strava.community'' = Some 2024"
    by (simp add: scan_defs)
  have m: "stravaEventMapOf [sampleEvent] 2024 = None"
    by (simp add: stravaEventMapOf_def sampleEvent_def)
  have i7: "ID sampleEvent = 7" by (simp add: sampleEvent_def)
  show ?thesis
    using uid m i7
    by (simp add: syncStravaEvents_def sample_syncTime lookalikeItem_def)
qed



text \<open>
  C4, at the description generateICS composes for the sample event, and at a value of
  138 letters (a logical line of 150 bytes, in both revisions): the folded output has a
  first physical line of 75 bytes and a second one of 76, the continuation space and 75
  bytes of the line.
\<close>

theorem folded_line_of_76:
  "map length (physicalLines (formatICSProperty ''DESCRIPTION''
      (composeDescription sampleEvent ''12345'' ''Mon, 2 Nov @ 7:00 PM''))) = [75, 76, 62, 0] \<and>
   map length (physicalLines (formatICSProperty ''DESCRIPTION'' (replicate 138 (CHR ''a'')))) = [75, 76, 0] \<and>
   map length (physicalLines (formatICSProperty0 ''DESCRIPTION'' (replicate 138 (CHR ''a'')))) = [75, 76, 0]"
  by code_simp

text \<open>
  C5. escapeICSText (in both revisions) escapes the backslash first, then the semicolon,
  then the comma: on a string without line breaks the result is the string with each
  backslash, semicolon and comma preceded by one backslash, no character escaped twice,
  and unescaping it gives the string back.
\<close>

theorem escapeICSText_roundtrip:
  "CR \<notin> set s \<Longrightarrow> LF \<notin> set s \<Longrightarrow>
     escapeICSText s = concat (map escapeChar s) \<and>
     escapeICSText0 s = concat (map escapeChar s) \<and>
     unescapeText (escapeICSText s) = s \<and> unescapeText (escapeICSText0 s) = s"
  by (simp add: escapeICSText_chars escapeICSText0_chars unescape_escape)

theorem escapeICSText_roundtrip_witness:
  "CR \<notin> set [CHR ''a'', BSL, CHR '';'', CHR '','', CHR ''b''] \<and>
   LF \<notin> set [CHR ''a'', BSL, CHR '';'', CHR '','', CHR ''b''] \<and>
   escapeICSText [CHR ''a'', BSL, CHR '';'', CHR '','', CHR ''b'']
     = [CHR ''a'', BSL, BSL, BSL, CHR '';'', BSL, CHR '','', CHR ''b''] \<and>
   unescapeText (escapeICSText [CHR ''a'', BSL, CHR '';'', CHR '','', CHR ''b''])
     = [CHR ''a'', BSL, CHR '';'', CHR '','', CHR ''b'']"
  using escapeICSText_roundtrip [of "[CHR ''a'', BSL, CHR '';'', CHR '','', CHR ''b'']"]
  by (simp add: escapeChar_def)





text \<open>
  C8. An event that convertStravaEvent constructs ends exactly one hour after it starts,
  so its end is after its start.
\<close>

theorem convertStravaEvent_end:
  "convertStravaEvent w se = Inr ev \<Longrightarrow> End ev = Start ev + 1 * Hour \<and> End ev > Start ev"
  by (auto simp: convertStravaEvent_def getClubID_def Let_def Hour_def
           split: list.splits option.splits sum.splits if_splits)

theorem convertStravaEvent_end_witness:
  "convertStravaEvent sampleWorld sampleStravaEvent = Inr sampleEvent \<and>
   End sampleEvent = Start sampleEvent + 1 * Hour \<and> End sampleEvent > Start sampleEvent"
proof -
  have c: "convertStravaEvent sampleWorld sampleStravaEvent = Inr sampleEvent"
    by code_simp
  show ?thesis
    using convertStravaEvent_end [OF c] c by simp
qed

text \<open>
  C9, as stated, at an event that starts exactly seven days before now: the claim keeps
  it in the cache, filterEvents drops it.
\<close>

theorem filterEvents_boundary_counterexample:
  "Start (sampleEvent\<lparr>Start := sampleNow - 7 * 24 * Hour\<rparr>) = time_AddDays sampleWorld sampleNow (- 7) \<and>
   filterEvents sampleWorld sampleNow [sampleEvent\<lparr>Start := sampleNow - 7 * 24 * Hour\<rparr>] = []"
  by (simp add: filterEvents_def sampleWorld_def)

text \<open>
  C9, amended. The sync and export filter keeps exactly the events that start strictly
  between now and now plus 60 days, and the cache filter keeps exactly the events that
  start strictly after now minus 7 days, both in their order.
\<close>

theorem time_window_policy:
  "eventsNext60Days w now events
     = filter (\<lambda>e. now < Start e \<and> Start e < time_AddDays w now 60) events \<and>
   filterEvents w now events = filter (\<lambda>e. time_AddDays w now (- 7) < Start e) events"
  by (simp add: eventsNext60Days_def filterEvents_def next60Loop_filter filterLoop_filter)

theorem time_window_policy_witness:
  "eventsNext60Days sampleWorld sampleNow
     [sampleEvent, sampleEvent\<lparr>Start := sampleNow\<rparr>, sampleEvent\<lparr>Start := sampleNow + 60 * 24 * Hour\<rparr>]
     = [sampleEvent] \<and>
   filterEvents sampleWorld sampleNow [sampleEvent\<lparr>Start := sampleNow - 8 * 24 * Hour\<rparr>, sampleEvent]
     = [sampleEvent]"
  using time_window_policy [of sampleWorld sampleNow
          "[sampleEvent, sampleEvent\<lparr>Start := sampleNow\<rparr>, sampleEvent\<lparr>Start := sampleNow + 60 * 24 * Hour\<rparr>]"]
        time_window_policy [of sampleWorld sampleNow
          "[sampleEvent\<lparr>Start := sampleNow - 8 * 24 * Hour\<rparr>, sampleEvent]"]
  by (simp add: sampleWorld_def sampleEvent_def sampleNow_def sampleStart_def Hour_def)

text \<open>
  C10. When the cache file does not exist, loadExistingEvents returns the empty list and
  no error, and the ICS-only and calendar-only commands go on with no events.
\<close>

theorem loadExistingEvents_missing_file:
  "os_Stat fs eventsFile = StatNotExist \<Longrightarrow>
     loadExistingEvents w fs = Inr [] \<and> cachedEventsNext60Days w fs now = Inr []"
  by (simp add: loadExistingEvents_def cachedEventsNext60Days_def eventsNext60Days_def)

theorem loadExistingEvents_missing_file_witness:
  "os_Stat emptyDisk eventsFile = StatNotExist \<and>
   loadExistingEvents sampleWorld emptyDisk = Inr [] \<and>
   cachedEventsNext60Days sampleWorld emptyDisk sampleNow = Inr []"
  using loadExistingEvents_missing_file [of emptyDisk sampleWorld sampleNow]
  by (simp add: emptyDisk_def)

end
